theory Spec2Isabelle
  imports Complex_Main "HOL-Library.Sublist"
begin

section \<open>Python values used by generate\_sample\_data.py\<close>

text \<open>
  Python integers are unbounded, so they are \<open>int\<close>; Python floats are modelled as
  \<open>real\<close> (the probabilities are compared and clamped, never accumulated).
  The exceptions the script can raise are values of \<open>py_error\<close>.
\<close>

datatype py_error = KeyError | ZeroDivisionError | ValueError | IndexError | OSError

subsection \<open>Decimal formatting: \<open>str(n)\<close> and the format spec \<open>:0Nd\<close>\<close>

fun digit_char :: "nat \<Rightarrow> char" where
  "digit_char d =
     (if d = 0 then CHR ''0'' else if d = 1 then CHR ''1'' else if d = 2 then CHR ''2''
      else if d = 3 then CHR ''3'' else if d = 4 then CHR ''4'' else if d = 5 then CHR ''5''
      else if d = 6 then CHR ''6'' else if d = 7 then CHR ''7'' else if d = 8 then CHR ''8''
      else CHR ''9'')"

fun str_nat :: "nat \<Rightarrow> string" where
  "str_nat n = (if n < 10 then [digit_char n] else str_nat (n div 10) @ [digit_char (n mod 10)])"

declare str_nat.simps [simp del]

definition str_int :: "int \<Rightarrow> string" where
  \<comment> \<open>\<open>f"{i}"\<close> for an int\<close>
  "str_int i = (if i < 0 then ''-'' @ str_nat (nat (- i)) else str_nat (nat i))"

definition format_0d :: "nat \<Rightarrow> int \<Rightarrow> string" where
  \<comment> \<open>\<open>f"{i:0wd}"\<close>: sign-aware zero padding to a total width of \<open>w\<close>\<close>
  "format_0d w i =
     (let sgn = (if i < 0 then ''-'' else '''');
          ds = str_nat (nat \<bar>i\<bar>)
      in sgn @ replicate (w - length sgn - length ds) CHR ''0'' @ ds)"

subsection \<open>The module \<open>random\<close>\<close>

text \<open>
  The script draws from Python's process-wide generator. The generator is made explicit:
  an infinite sequence of raw natural numbers, consumed from the front, and threaded
  through every function that draws. Each library call maps one raw number into its
  documented range, so every value of the range can occur and nothing outside it:
  \<open>random()\<close> is a multiple of \<open>2\<^sup>-\<^sup>5\<^sup>3\<close> in \<open>[0, 1)\<close>, \<open>randint(a, b)\<close> lies in \<open>[a, b]\<close>
  (the script only calls it with \<open>a \<le> b\<close>), \<open>uniform(a, b)\<close> is \<open>a + (b - a) * random()\<close>
  and \<open>choice(xs)\<close> indexes a non-empty list.
\<close>

type_synonym rng = "nat \<Rightarrow> nat"

definition rng_next :: "rng \<Rightarrow> rng" where
  "rng_next r = (\<lambda>k. r (Suc k))"

definition random_random :: "rng \<Rightarrow> real \<times> rng" where
  "random_random r = (real (r 0 mod 2 ^ 53) / 2 ^ 53, rng_next r)"

definition randint :: "int \<Rightarrow> int \<Rightarrow> rng \<Rightarrow> int \<times> rng" where
  "randint a b r = (a + int (r 0 mod nat (b - a + 1)), rng_next r)"

definition uniform :: "real \<Rightarrow> real \<Rightarrow> rng \<Rightarrow> real \<times> rng" where
  "uniform a b r = (case random_random r of (u, r') \<Rightarrow> (a + (b - a) * u, r'))"

definition choice :: "'a list \<Rightarrow> rng \<Rightarrow> 'a \<times> rng" where
  "choice xs r = (xs ! (r 0 mod length xs), rng_next r)"

section \<open>Module constants\<close>

definition GRADE_COMPETENCIES :: "int \<rightharpoonup> string list" where
  "GRADE_COMPETENCIES = map_of
     [(4, [''NUM-MultiDigit'', ''COMP-Advanced'', ''MEAS-Standard'', ''GEOM-Reasoning'']),
      (5, [''COMP-Advanced'', ''NUM-Large'', ''NUM-FracDec'', ''MEAS-Advanced'']),
      (6, [''NUM-FracDec'', ''DATA-Represent'', ''NUM-Theory'', ''RATIO-Proportion'']),
      (7, [''RATIO-Proportion'', ''ALG-PreAlg'', ''GEOM-Advanced'', ''NUM-Theory'']),
      (8, [''ALG-PreAlg'', ''GEOM-Advanced'', ''NUM-AdvSystems'', ''GEOM-Coord'']),
      (9, [''ALG-Manipulation'', ''FUNC-Relationships'', ''GEOM-Coord'', ''GEOM-Advanced'']),
      (10, [''ALG-Manipulation'', ''FUNC-Relationships'', ''NUM-AdvSystems'', ''GEOM-Trig'']),
      (11, [''FUNC-Advanced'', ''CALC-Foundations'', ''GEOM-Trig'', ''DATA-Stats'']),
      (12, [''FUNC-Advanced'', ''CALC-Foundations'', ''DATA-Stats'', ''GEOM-Trig''])]"

definition FIRST_NAMES :: "string list" where
  "FIRST_NAMES = [''Thabo'', ''Lerato'', ''Sipho'', ''Naledi'', ''Johan'', ''Fatima'', ''Ayesha'',
                  ''Pieter'', ''Zanele'', ''Mandla'', ''Caitlin'', ''Ravi'', ''Lindiwe'', ''James'',
                  ''Precious'', ''David'', ''Neo'', ''Palesa'', ''Mohammed'', ''Sarah'']"

definition LAST_NAMES :: "string list" where
  "LAST_NAMES = [''Nkosi'', ''Dlamini'', ''Van der Merwe'', ''Pillay'', ''Mokoena'', ''Smith'',
                 ''Ndlovu'', ''Botha'', ''Govender'', ''Molefe'', ''Williams'', ''Tshabalala'']"

section \<open>generate\_question\_id\<close>

definition generate_question_id :: "int \<Rightarrow> string \<Rightarrow> int \<Rightarrow> int \<Rightarrow> string" where
  \<comment> \<open>\<open>f"G{grade}_{competency}_T{q_type}_{seq:02d}"\<close>\<close>
  "generate_question_id grade competency q_type seq =
     ''G'' @ str_int grade @ ''_'' @ competency @ ''_T'' @ str_int q_type @ ''_'' @ format_0d 2 seq"

section \<open>simulate\_student\_performance\<close>

text \<open>
  A \<open>datetime\<close> is kept as its number of seconds after midnight of 2026-02-01, so
  \<open>start_time\<close>, 09:00:00 on that day, is 32400, adding \<open>timedelta(seconds=n)\<close> adds \<open>n\<close>,
  and \<open>(t - start_time).total_seconds()\<close> is a difference. A response keeps in its
  \<open>timestamp\<close> the \<open>datetime\<close> whose \<open>isoformat()\<close> text the script stores.
\<close>

type_synonym datetime = int

record response =
  question_id :: string
  grade_tag :: string
  competency_tag :: string
  type_tag :: string
  is_correct :: int
  timestamp :: datetime

record sim_state =
  current_time :: datetime
  responses :: "response list"
  rand :: rng

definition start_time :: datetime where
  "start_time = 9 * 3600"

definition time_limit_seconds :: int where
  "time_limit_seconds = 90 * 60"

definition prob_correct :: "int \<Rightarrow> int \<Rightarrow> real \<Rightarrow> int \<Rightarrow> real" where
  \<comment> \<open>the probability computed at the head of the innermost loop body\<close>
  "prob_correct grade student_grade base_skill q_type =
     (let grade_diff = grade - student_grade;
          p = (if grade_diff \<le> - 2 then 0.95
               else if grade_diff \<le> 0 then base_skill + 0.1
               else if grade_diff = 1 then base_skill - 0.05
               else if grade_diff = 2 then base_skill - 0.15
               else max 0.25 (base_skill - (of_int grade_diff * 0.1)));
          p' = (if q_type = 3 then p - 0.05 else p)
      in max 0.15 (min 0.98 p'))"

definition question :: "int \<Rightarrow> real \<Rightarrow> int \<Rightarrow> string \<Rightarrow> int \<Rightarrow> int \<Rightarrow> sim_state \<Rightarrow> sim_state" where
  \<comment> \<open>the body of the innermost loop: one question answered\<close>
  "question student_grade base_skill grade cmp q_type seq st =
     (let (u, r1) = random_random (rand st);
          correct = (u < prob_correct grade student_grade base_skill q_type);
          (d, r2) = randint 15 30 r1;
          time_per_q = d + (grade - 4) * 3;
          t = current_time st + time_per_q
      in \<lparr>current_time = t,
          responses = responses st @
            [\<lparr>question_id = generate_question_id grade cmp q_type seq,
              grade_tag = ''Grade-'' @ str_int grade,
              competency_tag = cmp,
              type_tag = ''Type-'' @ str_int q_type,
              is_correct = (if correct then 1 else 0),
              timestamp = t\<rparr>],
          rand = r2\<rparr>)"

definition competency_questions :: "int \<Rightarrow> real \<Rightarrow> int \<Rightarrow> string \<Rightarrow> sim_state \<Rightarrow> sim_state" where
  \<comment> \<open>\<open>for q_type in [1, 2, 3]: for seq in [1, 2]: ...\<close>\<close>
  "competency_questions student_grade base_skill grade cmp st =
     fold (\<lambda>q_type. fold (question student_grade base_skill grade cmp q_type) [1, 2]) [1, 2, 3] st"

fun comp_loop :: "int \<Rightarrow> real \<Rightarrow> int \<Rightarrow> string list \<Rightarrow> sim_state \<Rightarrow> sim_state" where
  \<comment> \<open>\<open>for comp in competencies\<close> (the loop variable is \<open>cmp\<close> here), left by \<open>break\<close> when the time limit is reached\<close>
  "comp_loop student_grade base_skill grade [] st = st"
| "comp_loop student_grade base_skill grade (cmp # comps) st =
     (let elapsed = current_time st - start_time
      in if elapsed \<ge> time_limit_seconds then st
         else comp_loop student_grade base_skill grade comps
                (competency_questions student_grade base_skill grade cmp st))"

fun grade_loop :: "int \<Rightarrow> real \<Rightarrow> int list \<Rightarrow> sim_state \<Rightarrow> py_error + sim_state" where
  \<comment> \<open>\<open>for grade in range(4, 13)\<close>; a grade missing from the table raises KeyError\<close>
  "grade_loop student_grade base_skill [] st = Inr st"
| "grade_loop student_grade base_skill (grade # grades) st =
     (case GRADE_COMPETENCIES grade of
        None \<Rightarrow> Inl KeyError
      | Some competencies \<Rightarrow>
          grade_loop student_grade base_skill grades
            (comp_loop student_grade base_skill grade competencies st))"

definition simulate_student_performance ::
  "int \<Rightarrow> real \<Rightarrow> rng \<Rightarrow> py_error + ((response list \<times> bool) \<times> rng)" where
  "simulate_student_performance student_grade base_skill r =
     (case grade_loop student_grade base_skill [4..12]
             \<lparr>current_time = start_time, responses = [], rand = r\<rparr> of
        Inl e \<Rightarrow> Inl e
      | Inr st \<Rightarrow> Inr ((responses st, False), rand st))"

section \<open>generate\_sample\_data\<close>

subsection \<open>Library calls of the summary\<close>

fun split_on :: "char \<Rightarrow> string \<Rightarrow> string list" where
  \<comment> \<open>\<open>s.split(c)\<close> for a separator of one character\<close>
  "split_on c [] = [[]]"
| "split_on c (x # xs) =
     (if x = c then [] # split_on c xs
      else (case split_on c xs of [] \<Rightarrow> [[x]] | w # ws \<Rightarrow> (x # w) # ws))"

definition is_digit :: "char \<Rightarrow> bool" where
  "is_digit c = (c \<in> set ''0123456789'')"

definition digit_val :: "char \<Rightarrow> nat" where
  "digit_val c = of_char c - 48"

definition nat_of_digits :: "string \<Rightarrow> nat" where
  "nat_of_digits ds = foldl (\<lambda>a c. 10 * a + digit_val c) 0 ds"

definition py_int :: "string \<Rightarrow> py_error + int" where
  \<comment> \<open>\<open>int(s)\<close> on an optional sign followed by ASCII decimal digits; any other text is
      taken as a ValueError (Python accepts a few more, none of which a grade tag holds)\<close>
  "py_int s =
     (let neg = (s \<noteq> [] \<and> hd s = CHR ''-'');
          ds = (if s \<noteq> [] \<and> (hd s = CHR ''-'' \<or> hd s = CHR ''+'') then tl s else s)
      in if ds \<noteq> [] \<and> list_all is_digit ds
         then Inr (if neg then - int (nat_of_digits ds) else int (nat_of_digits ds))
         else Inl ValueError)"

definition round_half_even :: "real \<Rightarrow> nat" where
  \<comment> \<open>the integer nearest to a non-negative number, a tie going to the even neighbour\<close>
  "round_half_even x =
     (let f = \<lfloor>x\<rfloor>; d = x - of_int f
      in nat (if d < 1 / 2 then f else if d > 1 / 2 then f + 1
              else if even f then f else f + 1))"

definition format_0f :: "real \<Rightarrow> string" where
  \<comment> \<open>\<open>f"{x:.0f}"\<close>\<close>
  "format_0f x = (if x < 0 then ''-'' else []) @ str_nat (round_half_even \<bar>x\<bar>)"

subsection \<open>Rows and the effects of a run\<close>

text \<open>
  An output row is \<open>{'student_id': ..., 'student_name': ..., 'student_grade_level': ..., **resp}\<close>:
  the response's fields and the student's. The effects of a run are the CSV file handed to
  \<open>csv.DictWriter\<close> (the header's field names and the rows; none when the file is never
  opened) and the lines printed.
\<close>

record row = response +
  student_id :: string
  student_name :: string
  student_grade_level :: int

record effects =
  csv_file :: "(string list \<times> row list) option"
  stdout :: "string list"

definition range :: "int \<Rightarrow> int list" where
  \<comment> \<open>\<open>range(n)\<close>\<close>
  "range n = [0..n - 1]"

definition make_row :: "string \<Rightarrow> string \<Rightarrow> int \<Rightarrow> response \<Rightarrow> row" where
  "make_row sid name grade resp =
     \<lparr>question_id = question_id resp, grade_tag = grade_tag resp,
      competency_tag = competency_tag resp, type_tag = type_tag resp,
      is_correct = is_correct resp, timestamp = timestamp resp,
      student_id = sid, student_name = name, student_grade_level = grade\<rparr>"

fun students_loop :: "int list \<Rightarrow> row list \<Rightarrow> rng \<Rightarrow> py_error + (row list \<times> rng)" where
  \<comment> \<open>\<open>for i in range(num_students)\<close>\<close>
  "students_loop [] all_rows r = Inr (all_rows, r)"
| "students_loop (i # rest) all_rows r =
     (let sid = ''STU'' @ format_0d 3 (i + 1);
          (first_name, r1) = choice FIRST_NAMES r;
          (last_name, r2) = choice LAST_NAMES r1;
          name = first_name @ '' '' @ last_name;
          (student_grade, r3) = randint 4 12 r2;
          (base_skill, r4) = uniform 0.5 0.9 r3
      in case simulate_student_performance student_grade base_skill r4 of
           Inl e \<Rightarrow> Inl e
         | Inr ((resps, stopped_early), r5) \<Rightarrow>
             students_loop rest (all_rows @ map (make_row sid name student_grade) resps) r5)"

definition grade_of_tag :: "string \<Rightarrow> py_error + int" where
  \<comment> \<open>\<open>int(r['grade_tag'].split('-')[1])\<close>\<close>
  "grade_of_tag tag =
     (let parts = split_on CHR ''-'' tag
      in if length parts \<le> 1 then Inl IndexError else py_int (parts ! 1))"

fun parse_grades :: "row list \<Rightarrow> py_error + int list" where
  "parse_grades [] = Inr []"
| "parse_grades (r # rs) =
     (case grade_of_tag (grade_tag r) of
        Inl e \<Rightarrow> Inl e
      | Inr g \<Rightarrow> (case parse_grades rs of Inl e \<Rightarrow> Inl e | Inr gs \<Rightarrow> Inr (g # gs)))"

definition py_max :: "int list \<Rightarrow> py_error + int" where
  \<comment> \<open>\<open>max(...)\<close> raises ValueError on an empty sequence\<close>
  "py_max gs = (case gs of [] \<Rightarrow> Inl ValueError | g # gs' \<Rightarrow> Inr (fold max gs' g))"

definition summary_line :: "row list \<Rightarrow> string \<Rightarrow> py_error + string" where
  \<comment> \<open>the body of \<open>for sid in list(students)[:3]\<close>\<close>
  "summary_line all_rows sid =
     (let student_rows = filter (\<lambda>r. student_id r = sid) all_rows;
          correct = sum_list (map is_correct student_rows);
          total = int (length student_rows)
      in case parse_grades student_rows of
           Inl e \<Rightarrow> Inl e
         | Inr gs \<Rightarrow>
            (case py_max gs of
               Inl e \<Rightarrow> Inl e
             | Inr max_grade \<Rightarrow>
                 if total = 0 then Inl ZeroDivisionError
                 else Inr (''  '' @ sid @ '': '' @ str_int correct @ ''/'' @ str_int total
                           @ '' correct ('' @ format_0f (of_int (100 * correct) / of_int total)
                           @ ''%), reached Grade '' @ str_int max_grade)))"

fun summary_loop :: "row list \<Rightarrow> string list \<Rightarrow> string list \<Rightarrow> py_error + string list" where
  "summary_loop all_rows [] out = Inr out"
| "summary_loop all_rows (sid # sids) out =
     (case summary_line all_rows sid of
        Inl e \<Rightarrow> Inl e
      | Inr line \<Rightarrow> summary_loop all_rows sids (out @ [line]))"

definition fieldnames :: "string list" where
  "fieldnames = [''student_id'', ''student_name'', ''student_grade_level'',
                 ''question_id'', ''grade_tag'', ''competency_tag'', ''type_tag'',
                 ''is_correct'', ''timestamp'']"

text \<open>
  Two things come from outside the script and are parameters of the model. \<open>set_iter\<close>
  is the order in which Python iterates the set built from a sequence of strings (it
  depends on the string hashes, which change from process to process): all that is known of
  it is that it lists each element of the set once. \<open>can_open\<close> tells whether \<open>open\<close> succeeds
  on a path; when it does not, the exception leaves the function.
\<close>

definition set_iter_ok :: "(string list \<Rightarrow> string list) \<Rightarrow> bool" where
  "set_iter_ok set_iter = (\<forall>xs. distinct (set_iter xs) \<and> set (set_iter xs) = set xs)"

definition generate_sample_data ::
  "(string list \<Rightarrow> string list) \<Rightarrow> (string \<Rightarrow> bool) \<Rightarrow> int \<Rightarrow> string \<Rightarrow> rng \<Rightarrow> py_error + effects" where
  "generate_sample_data set_iter can_open num_students output_file r =
     (case students_loop (range num_students) [] r of
        Inl e \<Rightarrow> Inl e
      | Inr (all_rows, r') \<Rightarrow>
          if all_rows \<noteq> [] then
            if \<not> can_open output_file then Inl OSError
            else
              let out = [''Generated '' @ str_int (int (length all_rows)) @ '' responses for ''
                           @ str_int num_students @ '' students'',
                         ''Saved to: '' @ output_file];
                  students = set_iter (map student_id all_rows)
              in case summary_loop all_rows (take 3 students) out of
                   Inl e \<Rightarrow> Inl e
                 | Inr out' \<Rightarrow> Inr \<lparr>csv_file = Some (fieldnames, all_rows), stdout = out'\<rparr>
          else Inr \<lparr>csv_file = None, stdout = []\<rparr>)"

section \<open>The specification's wording, for comparison with the code\<close>

definition spec_base_rate :: "int \<Rightarrow> real \<Rightarrow> real" where
  \<comment> \<open>base rate by grade gap, as the specification lists it\<close>
  "spec_base_rate grade_diff base_skill =
     (if grade_diff \<le> - 2 then 0.95
      else if grade_diff = - 1 \<or> grade_diff = 0 then base_skill + 0.10
      else if grade_diff = 1 then base_skill - 0.05
      else if grade_diff = 2 then base_skill - 0.15
      else max 0.25 (base_skill - 0.1 * of_int grade_diff))"

definition spec_prob :: "int \<Rightarrow> real \<Rightarrow> int \<Rightarrow> real" where
  \<comment> \<open>the base rate, less 0.05 for a question of type 3, clamped to [0.15, 0.98]\<close>
  "spec_prob grade_diff base_skill q_type =
     (let raw = spec_base_rate grade_diff base_skill - (if q_type = 3 then 0.05 else 0)
      in if raw < 0.15 then 0.15 else if raw > 0.98 then 0.98 else raw)"

definition question_slots :: "int \<Rightarrow> string list \<Rightarrow> (int \<times> string \<times> int \<times> int) list" where
  \<comment> \<open>the questions of one grade: competencies in table order, then type 1, 2, 3, then sequence 1, 2\<close>
  "question_slots g comps = [(g, c, t, s). c \<leftarrow> comps, t \<leftarrow> [1, 2, 3], s \<leftarrow> [1, 2]]"

definition grade_slots :: "int \<Rightarrow> (int \<times> string \<times> int \<times> int) list" where
  "grade_slots g = (case GRADE_COMPETENCIES g of None \<Rightarrow> [] | Some comps \<Rightarrow> question_slots g comps)"

definition all_slots :: "(int \<times> string \<times> int \<times> int) list" where
  \<comment> \<open>the full traversal: grade, competency, type, sequence, strictly nested\<close>
  "all_slots = concat (map grade_slots [4..12])"

definition slot_id :: "int \<times> string \<times> int \<times> int \<Rightarrow> string" where
  "slot_id = (\<lambda>(g, c, t, s). generate_question_id g c t s)"

definition slot_fields :: "int \<times> string \<times> int \<times> int \<Rightarrow> string \<times> string \<times> string \<times> string" where
  \<comment> \<open>question id, grade tag, competency tag and type tag of the record for a slot\<close>
  "slot_fields = (\<lambda>(g, c, t, s).
     (generate_question_id g c t s, ''Grade-'' @ str_int g, c, ''Type-'' @ str_int t))"

definition response_fields :: "response \<Rightarrow> string \<times> string \<times> string \<times> string" where
  "response_fields r = (question_id r, grade_tag r, competency_tag r, type_tag r)"

definition exhausted :: "sim_state \<Rightarrow> bool" where
  \<comment> \<open>the test \<open>elapsed >= time_limit_seconds\<close> made before each competency\<close>
  "exhausted st = (current_time st - start_time \<ge> time_limit_seconds)"

definition emits :: "sim_state \<Rightarrow> sim_state \<Rightarrow> (int \<times> string \<times> int \<times> int) list \<Rightarrow> bool" where
  \<comment> \<open>from \<open>st\<close> to \<open>st'\<close> exactly the records of these slots were appended, in order, each
      flagged 0 or 1, stamped between the two clocks and no earlier than the record before it,
      the last one with the clock of \<open>st'\<close>\<close>
  "emits st st' slots =
     (\<exists>new. responses st' = responses st @ new
        \<and> map response_fields new = map slot_fields slots
        \<and> sorted (map timestamp new)
        \<and> (\<forall>r \<in> set new. current_time st \<le> timestamp r \<and> timestamp r \<le> current_time st'
                           \<and> (is_correct r = 0 \<or> is_correct r = 1))
        \<and> current_time st \<le> current_time st'
        \<and> current_time st' = (if new = [] then current_time st else timestamp (last new)))"

definition min_elapsed_35 :: int where
  \<comment> \<open>the least time 35 competencies can take: all four of grades 4 to 11 and three of
      grade 12, six questions each at 15 + 3 * (grade - 4) seconds\<close>
  "min_elapsed_35 = sum_list (map (\<lambda>g. 4 * (6 * (15 + 3 * (g - 4)))) [4..11])
                     + 3 * (6 * (15 + 3 * (12 - 4)))"

section \<open>Concrete inputs\<close>

definition rng_zero :: rng where
  \<comment> \<open>the generator whose raw numbers are all 0: every \<open>randint(15, 30)\<close> is 15 and every
      \<open>random()\<close> is 0.0, so each question takes its shortest time\<close>
  "rng_zero = (\<lambda>_. 0)"

definition always_open :: "string \<Rightarrow> bool" where
  "always_open path = True"

definition min_run :: "response list" where
  \<comment> \<open>the records of a grade-4 student of base skill 0.7 under \<open>rng_zero\<close>\<close>
  "min_run = (case simulate_student_performance 4 (7 / 10) rng_zero of
                Inl e \<Rightarrow> [] | Inr ((rs, stopped_early), r) \<Rightarrow> rs)"

definition whole_competencies :: "sim_state \<Rightarrow> bool" where
  \<comment> \<open>the records so far are whole competencies of six, the clock is the stamp of the last
      record, and every competency after the first was begun with budget left\<close>
  "whole_competencies st =
     (6 dvd length (responses st)
      \<and> (responses st \<noteq> [] \<longrightarrow> timestamp (last (responses st)) = current_time st)
      \<and> (\<forall>k. 0 < k \<and> 6 * k < length (responses st) \<longrightarrow>
             timestamp (responses st ! (6 * k - 1)) - start_time < time_limit_seconds))"

definition elapsed_at :: "response \<Rightarrow> int" where
  \<comment> \<open>seconds from the start of the quiz to the record's timestamp\<close>
  "elapsed_at r = timestamp r - start_time"


fun budget_lasts :: "int \<Rightarrow> int list \<Rightarrow> bool" where
  \<comment> \<open>with at most \<open>T\<close> seconds gone, these grades are gone through in full even when every
      question takes its longest time, 30 + 3 * (grade - 4) seconds\<close>
  "budget_lasts T [] = True"
| "budget_lasts T (g # gs) =
     (T + 3 * (6 * (30 + (g - 4) * 3)) < time_limit_seconds
      \<and> budget_lasts (T + 4 * (6 * (30 + (g - 4) * 3))) gs)"

section \<open>Formatting of numbers\<close>

lemma str_nat_numeral:
  "str_nat (numeral k) =
     (if (numeral k :: nat) < 10 then [digit_char (numeral k)]
      else str_nat (numeral k div 10) @ [digit_char (numeral k mod 10)])"
  by (rule str_nat.simps)

lemma str_nat_0: "str_nat 0 = ''0''"
  by (simp add: str_nat.simps [of 0])

lemma str_nat_1: "str_nat 1 = ''1''" "str_nat (Suc 0) = ''1''"
  by (simp_all add: str_nat.simps [of 1] str_nat.simps [of "Suc 0"])

lemmas str_nat_eval = str_nat_numeral str_nat_0 str_nat_1

lemma str_int_grade:
  assumes "4 \<le> g" "g \<le> 12"
  shows "str_int g = [''4'', ''5'', ''6'', ''7'', ''8'', ''9'', ''10'', ''11'', ''12''] ! nat (g - 4)"
proof -
  from assms have "g = 4 \<or> g = 5 \<or> g = 6 \<or> g = 7 \<or> g = 8 \<or> g = 9 \<or> g = 10 \<or> g = 11 \<or> g = 12"
    by arith
  then show ?thesis
    by (elim disjE) (simp_all add: str_int_def str_nat_eval)
qed

text \<open>
  Claim C8. For a grade from 4 to 12, any competency tag, a question type among 1, 2, 3
  and a sequence number 1 or 2, \<open>generate_question_id\<close> returns the text
  \<open>G{grade}_{competency}_T{type}_{seq:02d}\<close>: the letter G, the grade in decimal, an
  underscore, the tag, \<open>_T\<close>, the type's digit, an underscore, and the sequence number as
  two digits with a leading zero. The function takes no state and returns only this text.
\<close>

theorem generate_question_id_format:
  assumes "4 \<le> grade" "grade \<le> 12" "q_type \<in> {1, 2, 3}" "seq \<in> {1, 2}"
  shows "generate_question_id grade competency q_type seq =
           ''G'' @ [''4'', ''5'', ''6'', ''7'', ''8'', ''9'', ''10'', ''11'', ''12''] ! nat (grade - 4)
             @ ''_'' @ competency
             @ ''_T'' @ [''1'', ''2'', ''3''] ! nat (q_type - 1)
             @ ''_'' @ [''01'', ''02''] ! nat (seq - 1)"
proof -
  have t: "str_int q_type = [''1'', ''2'', ''3''] ! nat (q_type - 1)"
    using assms(3) by (auto simp: str_int_def str_nat_eval)
  have s: "format_0d 2 seq = [''01'', ''02''] ! nat (seq - 1)"
    using assms(4) by (auto simp: format_0d_def str_nat_eval)
  show ?thesis
    unfolding generate_question_id_def t s str_int_grade [OF assms(1,2)] by simp
qed

theorem generate_question_id_format_witness:
  "(4::int) \<le> 4 \<and> (4::int) \<le> 12 \<and> (1::int) \<in> {1, 2, 3} \<and> (1::int) \<in> {1, 2}
   \<and> generate_question_id 4 ''NUM-MultiDigit'' 1 1 = ''G4_NUM-MultiDigit_T1_01''"
  using generate_question_id_format [of 4 1 1 "''NUM-MultiDigit''"] by simp

section \<open>The probability of a correct answer\<close>

text \<open>
  Claim C2. For every question the success probability the code computes equals the
  specification's piecewise base rate in the grade gap (0.95 for a gap of at most -2,
  base skill + 0.10 for -1 or 0, base skill - 0.05 for 1, base skill - 0.15 for 2, and
  max(0.25, base skill - 0.1 * gap) above 2), less 0.05 for question type 3, clamped to
  [0.15, 0.98]; the value always lies in [0.15, 0.98].
\<close>

theorem prob_correct_spec:
  "prob_correct grade student_grade base_skill q_type
     = spec_prob (grade - student_grade) base_skill q_type
   \<and> 0.15 \<le> prob_correct grade student_grade base_skill q_type
   \<and> prob_correct grade student_grade base_skill q_type \<le> 0.98"
proof -
  have "grade - student_grade \<le> 0 \<Longrightarrow> \<not> grade - student_grade \<le> - 2
          \<Longrightarrow> grade - student_grade = - 1 \<or> grade - student_grade = 0"
    by arith
  then show ?thesis
    by (auto simp: prob_correct_def spec_prob_def spec_base_rate_def Let_def max_def min_def)
qed

section \<open>The simulation loops\<close>

lemma randint_range: "a \<le> b \<Longrightarrow> a \<le> fst (randint a b r) \<and> fst (randint a b r) \<le> b"
proof -
  assume ab: "a \<le> b"
  then have pos: "0 < nat (b - a + 1)" by simp
  have "r 0 mod nat (b - a + 1) < nat (b - a + 1)"
    using pos by (rule mod_less_divisor)
  then have "int (r 0 mod nat (b - a + 1)) < b - a + 1" using ab by linarith
  then show ?thesis by (simp add: randint_def)
qed

lemma question_time:
  "current_time st + 15 + (grade - 4) * 3 \<le> current_time (question sg bs grade cmp t s st)
   \<and> current_time (question sg bs grade cmp t s st) \<le> current_time st + 30 + (grade - 4) * 3"
  using randint_range [of 15 30 "snd (random_random (rand st))"]
  by (simp add: question_def Let_def split_def)

lemma question_responses:
  "\<exists>c. responses (question sg bs grade cmp t s st) = responses st @
     [\<lparr>question_id = generate_question_id grade cmp t s,
       grade_tag = ''Grade-'' @ str_int grade,
       competency_tag = cmp,
       type_tag = ''Type-'' @ str_int t,
       is_correct = (if c then 1 else 0),
       timestamp = current_time (question sg bs grade cmp t s st)\<rparr>]"
  by (rule exI [of _ "fst (random_random (rand st)) < prob_correct grade sg bs t"])
     (simp add: question_def Let_def split_def)

lemma emits_refl: "emits st st []"
  by (simp add: emits_def)

lemma emits_trans:
  assumes "emits st st1 xs" "emits st1 st2 ys"
  shows "emits st st2 (xs @ ys)"
proof -
  from assms(1) obtain n1 where n1: "responses st1 = responses st @ n1"
    "map response_fields n1 = map slot_fields xs" "sorted (map timestamp n1)"
    "\<forall>r \<in> set n1. current_time st \<le> timestamp r \<and> timestamp r \<le> current_time st1
                     \<and> (is_correct r = 0 \<or> is_correct r = 1)"
    "current_time st \<le> current_time st1"
    "current_time st1 = (if n1 = [] then current_time st else timestamp (last n1))"
    unfolding emits_def by blast
  from assms(2) obtain n2 where n2: "responses st2 = responses st1 @ n2"
    "map response_fields n2 = map slot_fields ys" "sorted (map timestamp n2)"
    "\<forall>r \<in> set n2. current_time st1 \<le> timestamp r \<and> timestamp r \<le> current_time st2
                     \<and> (is_correct r = 0 \<or> is_correct r = 1)"
    "current_time st1 \<le> current_time st2"
    "current_time st2 = (if n2 = [] then current_time st1 else timestamp (last n2))"
    unfolding emits_def by blast
  have a: "responses st2 = responses st @ (n1 @ n2)" using n1(1) n2(1) by simp
  have b: "map response_fields (n1 @ n2) = map slot_fields (xs @ ys)" using n1(2) n2(2) by simp
  have c: "sorted (map timestamp (n1 @ n2))"
    using n1(3,4) n2(3,4) by (fastforce simp: sorted_append)
  have d: "\<forall>r \<in> set (n1 @ n2). current_time st \<le> timestamp r \<and> timestamp r \<le> current_time st2
                            \<and> (is_correct r = 0 \<or> is_correct r = 1)"
    using n1(4,5) n2(4,5) by fastforce
  have e: "current_time st \<le> current_time st2" using n1(5) n2(5) by simp
  have f: "current_time st2 = (if n1 @ n2 = [] then current_time st else timestamp (last (n1 @ n2)))"
    using n1(6) n2(6) by simp
  show ?thesis unfolding emits_def using a b c d e f by blast
qed

lemma question_emits:
  assumes "4 \<le> g"
  shows "emits st (question sg bs g c t s st) [(g, c, t, s)]"
proof -
  obtain b where r: "responses (question sg bs g c t s st) = responses st @
     [\<lparr>question_id = generate_question_id g c t s, grade_tag = ''Grade-'' @ str_int g,
       competency_tag = c, type_tag = ''Type-'' @ str_int t,
       is_correct = (if b then 1 else 0),
       timestamp = current_time (question sg bs g c t s st)\<rparr>]"
    using question_responses by blast
  have t: "current_time st \<le> current_time (question sg bs g c t s st)"
    using question_time [of st g sg bs c t s] assms by auto
  show ?thesis
    unfolding emits_def
    by (rule exI, rule conjI, rule r) (simp add: response_fields_def slot_fields_def t)
qed

lemma competency_questions_unfold:
  "competency_questions sg bs g c st =
     question sg bs g c 3 2 (question sg bs g c 3 1 (question sg bs g c 2 2
       (question sg bs g c 2 1 (question sg bs g c 1 2 (question sg bs g c 1 1 st)))))"
  by (simp add: competency_questions_def)

lemma question_slots_single:
  "question_slots g [c] = [(g, c, 1, 1), (g, c, 1, 2), (g, c, 2, 1), (g, c, 2, 2), (g, c, 3, 1), (g, c, 3, 2)]"
  by (simp add: question_slots_def)

lemma question_slots_append:
  "question_slots g (xs @ ys) = question_slots g xs @ question_slots g ys"
  by (simp add: question_slots_def)

lemma question_slots_Cons:
  "question_slots g (c # cs) = question_slots g [c] @ question_slots g cs"
  using question_slots_append [of g "[c]" cs] by simp

lemma length_question_slots: "length (question_slots g cs) = 6 * length cs"
  by (induction cs) (simp_all add: question_slots_def)

lemma competency_emits:
  assumes "4 \<le> g"
  shows "emits st (competency_questions sg bs g c st) (question_slots g [c])"
proof -
  define q1 where "q1 = question sg bs g c 1 1 st"
  define q2 where "q2 = question sg bs g c 1 2 q1"
  define q3 where "q3 = question sg bs g c 2 1 q2"
  define q4 where "q4 = question sg bs g c 2 2 q3"
  define q5 where "q5 = question sg bs g c 3 1 q4"
  define q6 where "q6 = question sg bs g c 3 2 q5"
  have e1: "emits st q1 [(g, c, 1, 1)]" unfolding q1_def by (rule question_emits [OF assms])
  have e2: "emits q1 q2 [(g, c, 1, 2)]" unfolding q2_def by (rule question_emits [OF assms])
  have e3: "emits q2 q3 [(g, c, 2, 1)]" unfolding q3_def by (rule question_emits [OF assms])
  have e4: "emits q3 q4 [(g, c, 2, 2)]" unfolding q4_def by (rule question_emits [OF assms])
  have e5: "emits q4 q5 [(g, c, 3, 1)]" unfolding q5_def by (rule question_emits [OF assms])
  have e6: "emits q5 q6 [(g, c, 3, 2)]" unfolding q6_def by (rule question_emits [OF assms])
  have e: "competency_questions sg bs g c st = q6"
    unfolding competency_questions_unfold q6_def q5_def q4_def q3_def q2_def q1_def ..
  have "emits st q6 ([(g, c, 1, 1)] @ [(g, c, 1, 2)] @ [(g, c, 2, 1)] @ [(g, c, 2, 2)]
                      @ [(g, c, 3, 1)] @ [(g, c, 3, 2)])"
    by (rule emits_trans [OF e1 emits_trans [OF e2 emits_trans [OF e3 emits_trans [OF e4
          emits_trans [OF e5 e6]]]]])
  then show ?thesis unfolding e by (simp add: question_slots_single)
qed

lemma competency_time:
  "current_time st + 6 * (15 + (g - 4) * 3) \<le> current_time (competency_questions sg bs g c st)
   \<and> current_time (competency_questions sg bs g c st) \<le> current_time st + 6 * (30 + (g - 4) * 3)"
proof -
  define q1 where "q1 = question sg bs g c 1 1 st"
  define q2 where "q2 = question sg bs g c 1 2 q1"
  define q3 where "q3 = question sg bs g c 2 1 q2"
  define q4 where "q4 = question sg bs g c 2 2 q3"
  define q5 where "q5 = question sg bs g c 3 1 q4"
  define q6 where "q6 = question sg bs g c 3 2 q5"
  define k where "k = (g - 4) * 3"
  have t1: "current_time st + 15 + k \<le> current_time q1 \<and> current_time q1 \<le> current_time st + 30 + k"
    unfolding q1_def k_def by (rule question_time)
  have t2: "current_time q1 + 15 + k \<le> current_time q2 \<and> current_time q2 \<le> current_time q1 + 30 + k"
    unfolding q2_def k_def by (rule question_time)
  have t3: "current_time q2 + 15 + k \<le> current_time q3 \<and> current_time q3 \<le> current_time q2 + 30 + k"
    unfolding q3_def k_def by (rule question_time)
  have t4: "current_time q3 + 15 + k \<le> current_time q4 \<and> current_time q4 \<le> current_time q3 + 30 + k"
    unfolding q4_def k_def by (rule question_time)
  have t5: "current_time q4 + 15 + k \<le> current_time q5 \<and> current_time q5 \<le> current_time q4 + 30 + k"
    unfolding q5_def k_def by (rule question_time)
  have t6: "current_time q5 + 15 + k \<le> current_time q6 \<and> current_time q6 \<le> current_time q5 + 30 + k"
    unfolding q6_def k_def by (rule question_time)
  have e: "competency_questions sg bs g c st = q6"
    unfolding competency_questions_unfold q6_def q5_def q4_def q3_def q2_def q1_def ..
  have "current_time st + 6 * (15 + k) \<le> current_time q6 \<and> current_time q6 \<le> current_time st + 6 * (30 + k)"
    using t1 t2 t3 t4 t5 t6 by auto
  then show ?thesis unfolding e k_def .
qed

lemma comp_loop_exhausted: "exhausted st \<Longrightarrow> comp_loop sg bs g comps st = st"
  by (cases comps) (simp_all add: exhausted_def Let_def)

lemma comp_loop_not_exhausted:
  "\<not> exhausted st \<Longrightarrow>
     comp_loop sg bs g (c # comps) st = comp_loop sg bs g comps (competency_questions sg bs g c st)"
  by (simp add: exhausted_def Let_def)

lemma comp_loop_run:
  assumes g: "4 \<le> g"
  shows "\<exists>k \<le> length comps.
           emits st (comp_loop sg bs g comps st) (question_slots g (take k comps))
         \<and> current_time st + int k * (6 * (15 + (g - 4) * 3)) \<le> current_time (comp_loop sg bs g comps st)
         \<and> current_time (comp_loop sg bs g comps st) \<le> current_time st + int k * (6 * (30 + (g - 4) * 3))
         \<and> (k < length comps \<longrightarrow> exhausted (comp_loop sg bs g comps st))
         \<and> (0 < k \<longrightarrow> current_time st + (int k - 1) * (6 * (15 + (g - 4) * 3)) - start_time
                          < time_limit_seconds)"
proof (induction comps arbitrary: st)
  case Nil
  show ?case by (simp add: emits_refl question_slots_def)
next
  case (Cons c comps)
  define lo where "lo = 6 * (15 + (g - 4) * 3)"
  define hi where "hi = 6 * (30 + (g - 4) * 3)"
  show ?case
  proof (cases "exhausted st")
    case True
    then have e: "comp_loop sg bs g (c # comps) st = st" by (rule comp_loop_exhausted)
    show ?thesis
      unfolding e by (rule exI [of _ 0]) (simp add: emits_refl question_slots_def True)
  next
    case False
    define st1 where "st1 = competency_questions sg bs g c st"
    have e: "comp_loop sg bs g (c # comps) st = comp_loop sg bs g comps st1"
      unfolding st1_def using False by (rule comp_loop_not_exhausted)
    define st2 where "st2 = comp_loop sg bs g comps st1"
    from Cons.IH [of st1] obtain k where k: "k \<le> length comps"
      "emits st1 st2 (question_slots g (take k comps))"
      "current_time st1 + int k * lo \<le> current_time st2"
      "current_time st2 \<le> current_time st1 + int k * hi"
      "k < length comps \<longrightarrow> exhausted st2"
      "0 < k \<longrightarrow> current_time st1 + (int k - 1) * lo - start_time < time_limit_seconds"
      unfolding st2_def lo_def hi_def by blast
    have t1: "current_time st + lo \<le> current_time st1" "current_time st1 \<le> current_time st + hi"
      using competency_time [of st g sg bs c] unfolding st1_def lo_def hi_def by auto
    have e1: "emits st st1 (question_slots g [c])"
      unfolding st1_def by (rule competency_emits [OF g])
    have a: "emits st st2 (question_slots g (take (Suc k) (c # comps)))"
      using emits_trans [OF e1 k(2)] question_slots_Cons [of g c "take k comps"] by simp
    have b: "current_time st + int (Suc k) * lo \<le> current_time st2"
      using t1(1) k(3) by (simp add: algebra_simps)
    have c: "current_time st2 \<le> current_time st + int (Suc k) * hi"
      using t1(2) k(4) by (simp add: algebra_simps)
    have d: "Suc k < length (c # comps) \<longrightarrow> exhausted st2" using k(5) by simp
    have nx: "current_time st - start_time < time_limit_seconds"
      using False by (simp add: exhausted_def)
    have f: "current_time st + (int (Suc k) - 1) * lo - start_time < time_limit_seconds"
    proof (cases "k = 0")
      case True
      then show ?thesis using nx by simp
    next
      case False
      then have "current_time st1 + (int k - 1) * lo - start_time < time_limit_seconds"
        using k(6) by simp
      then show ?thesis using t1(1) by (simp add: algebra_simps)
    qed
    show ?thesis
      unfolding e st2_def [symmetric] lo_def [symmetric] hi_def [symmetric]
      by (rule exI [of _ "Suc k"]) (use k(1) a b c d f in simp)
  qed
qed

lemma upto_4_12: "[4..12] = [4, 5, 6, 7, 8, 9, 10, 11, 12 :: int]"
  by (simp add: upto.simps)

lemma GRADE_COMPETENCIES_dom:
  "4 \<le> g \<Longrightarrow> g \<le> 12 \<Longrightarrow> \<exists>comps. GRADE_COMPETENCIES g = Some comps \<and> length comps = 4"
proof -
  assume "4 \<le> g" "g \<le> 12"
  then have "g = 4 \<or> g = 5 \<or> g = 6 \<or> g = 7 \<or> g = 8 \<or> g = 9 \<or> g = 10 \<or> g = 11 \<or> g = 12"
    by arith
  then show ?thesis
    by (elim disjE) (simp_all add: GRADE_COMPETENCIES_def)
qed

lemma grade_loop_exhausted:
  assumes "exhausted st" "\<forall>g \<in> set gs. GRADE_COMPETENCIES g \<noteq> None"
  shows "grade_loop sg bs gs st = Inr st"
  using assms(2)
proof (induction gs)
  case Nil
  show ?case by simp
next
  case (Cons g gs)
  then obtain comps where c: "GRADE_COMPETENCIES g = Some comps" by auto
  show ?case using Cons c by (simp add: comp_loop_exhausted [OF assms(1)])
qed

lemma grade_loop_append:
  "grade_loop sg bs (xs @ ys) st =
     (case grade_loop sg bs xs st of Inl e \<Rightarrow> Inl e | Inr st' \<Rightarrow> grade_loop sg bs ys st')"
  by (induction xs arbitrary: st) (simp_all split: option.splits)

lemma prefix_question_slots_take:
  "prefix (question_slots g (take k comps)) (question_slots g comps)"
proof -
  have "question_slots g comps = question_slots g (take k comps) @ question_slots g (drop k comps)"
    using question_slots_append [of g "take k comps" "drop k comps"] by simp
  then show ?thesis by (metis prefixI)
qed

lemma grade_loop_run:
  assumes "\<forall>g \<in> set gs. 4 \<le> g \<and> GRADE_COMPETENCIES g \<noteq> None"
  shows "\<exists>st' slots. grade_loop sg bs gs st = Inr st'
           \<and> emits st st' slots
           \<and> prefix slots (concat (map grade_slots gs))
           \<and> (slots \<noteq> concat (map grade_slots gs) \<longrightarrow> exhausted st')"
  using assms
proof (induction gs arbitrary: st)
  case Nil
  show ?case by (simp add: emits_refl)
next
  case (Cons g gs)
  from Cons.prems obtain comps where c: "GRADE_COMPETENCIES g = Some comps" and g4: "4 \<le> g"
    by auto
  have rest: "\<forall>g \<in> set gs. 4 \<le> g \<and> GRADE_COMPETENCIES g \<noteq> None" using Cons.prems by simp
  define st1 where "st1 = comp_loop sg bs g comps st"
  have step: "grade_loop sg bs (g # gs) st = grade_loop sg bs gs st1"
    by (simp add: c st1_def)
  have gs_g: "grade_slots g = question_slots g comps" by (simp add: grade_slots_def c)
  from comp_loop_run [OF g4, of comps st sg bs] obtain k where k: "k \<le> length comps"
    "emits st st1 (question_slots g (take k comps))"
    "k < length comps \<longrightarrow> exhausted st1"
    unfolding st1_def by blast
  show ?case
  proof (cases "k < length comps")
    case True
    then have ex: "exhausted st1" using k(3) by simp
    have r: "grade_loop sg bs gs st1 = Inr st1"
      using ex rest by (intro grade_loop_exhausted) auto
    have p: "prefix (question_slots g (take k comps)) (concat (map grade_slots (g # gs)))"
      using prefix_question_slots_take [of g k comps] by (simp add: gs_g)
    show ?thesis unfolding step r using k(2) p ex by blast
  next
    case False
    then have full: "take k comps = comps" using k(1) by simp
    from Cons.IH [OF rest, of st1] obtain st2 slots where s:
      "grade_loop sg bs gs st1 = Inr st2" "emits st1 st2 slots"
      "prefix slots (concat (map grade_slots gs))"
      "slots \<noteq> concat (map grade_slots gs) \<longrightarrow> exhausted st2"
      by blast
    have e: "emits st st2 (grade_slots g @ slots)"
      using emits_trans [OF k(2) s(2)] by (simp add: full gs_g)
    have p: "prefix (grade_slots g @ slots) (concat (map grade_slots (g # gs)))"
      using s(3) by simp
    have x: "grade_slots g @ slots \<noteq> concat (map grade_slots (g # gs)) \<longrightarrow> exhausted st2"
      using s(4) by simp
    show ?thesis unfolding step s(1) using e p x by blast
  qed
qed

lemma range_valid: "\<forall>g \<in> set [4..12]. 4 \<le> g \<and> GRADE_COMPETENCIES g \<noteq> None"
proof
  fix g :: int assume "g \<in> set [4..12]"
  then have "4 \<le> g" "g \<le> 12" by auto
  then show "4 \<le> g \<and> GRADE_COMPETENCIES g \<noteq> None"
    using GRADE_COMPETENCIES_dom [of g] by auto
qed

lemma simulate_run:
  "\<exists>st' slots. simulate_student_performance sg bs r = Inr ((responses st', False), rand st')
      \<and> emits \<lparr>current_time = start_time, responses = [], rand = r\<rparr> st' slots
      \<and> prefix slots all_slots
      \<and> (slots \<noteq> all_slots \<longrightarrow> exhausted st')"
proof -
  from grade_loop_run [OF range_valid, of sg bs "\<lparr>current_time = start_time, responses = [], rand = r\<rparr>"]
  obtain st' slots where s:
    "grade_loop sg bs [4..12] \<lparr>current_time = start_time, responses = [], rand = r\<rparr> = Inr st'"
    "emits \<lparr>current_time = start_time, responses = [], rand = r\<rparr> st' slots"
    "prefix slots (concat (map grade_slots [4..12]))"
    "slots \<noteq> concat (map grade_slots [4..12]) \<longrightarrow> exhausted st'"
    by blast
  show ?thesis
    unfolding simulate_student_performance_def s(1) all_slots_def
    using s(2,3,4) by auto
qed

section \<open>Question identifiers of the traversal\<close>

lemma distinct_concat_keyed:
  assumes "distinct (map K gs)"
    and "\<forall>g \<in> set gs. distinct (F g) \<and> (\<forall>x \<in> set (F g). key x = K g)"
  shows "distinct (concat (map F gs))"
  using assms
proof (induction gs)
  case Nil
  show ?case by simp
next
  case (Cons g gs)
  have d: "distinct (F g)" using Cons.prems(2) by simp
  have r: "distinct (concat (map F gs))" using Cons by simp
  have "set (F g) \<inter> set (concat (map F gs)) = {}"
  proof (rule ccontr)
    assume "set (F g) \<inter> set (concat (map F gs)) \<noteq> {}"
    then obtain x g' where x: "x \<in> set (F g)" "g' \<in> set gs" "x \<in> set (F g')" by auto
    have "key x = K g" using Cons.prems(2) x(1) by simp
    moreover have "key x = K g'" using Cons.prems(2) x(2,3) by simp
    ultimately have "K g = K g'" by simp
    then have "K g \<in> set (map K gs)" using x(2) by (metis imageI set_map)
    then show False using Cons.prems(1) by simp
  qed
  then show ?case using d r by simp
qed

lemma grade_ids:
  "g \<in> set [4, 5, 6, 7, 8, 9, 10, 11, 12] \<Longrightarrow>
     distinct (map slot_id (grade_slots g))
     \<and> (\<forall>x \<in> set (map slot_id (grade_slots g)).
           takeWhile (\<lambda>c. c \<noteq> CHR ''_'') x = ''G'' @ str_int g)"
  unfolding set_simps insert_iff empty_iff
  by (elim disjE FalseE)
     (simp_all add: grade_slots_def GRADE_COMPETENCIES_def question_slots_def slot_id_def
        generate_question_id_def str_int_def str_nat_eval format_0d_def)

lemma all_ids_distinct: "distinct (map slot_id all_slots)"
proof -
  have k: "distinct (map (\<lambda>g. ''G'' @ str_int g) [4, 5, 6, 7, 8, 9, 10, 11, 12])"
    by (simp add: str_int_def str_nat_eval)
  have "distinct (concat (map (\<lambda>g. map slot_id (grade_slots g)) [4, 5, 6, 7, 8, 9, 10, 11, 12]))"
    by (rule distinct_concat_keyed [where key = "takeWhile (\<lambda>c. c \<noteq> CHR ''_'')", OF k])
       (intro ballI, rule grade_ids)
  then show ?thesis
    by (simp only: all_slots_def upto_4_12 map_concat map_map comp_def)
qed

section \<open>Timestamps and identifiers of a student's records\<close>

lemma emits_length:
  "emits st st' slots \<Longrightarrow> length (responses st') = length (responses st) + length slots"
proof -
  assume "emits st st' slots"
  then obtain new where n: "responses st' = responses st @ new"
    "map response_fields new = map slot_fields slots"
    unfolding emits_def by blast
  have "length new = length slots" using n(2) by (metis length_map)
  then show ?thesis using n(1) by simp
qed

lemma question_id_fields: "question_id r = fst (response_fields r)"
  by (simp add: response_fields_def)

lemma slot_id_fields: "slot_id x = fst (slot_fields x)"
  by (cases x) (simp add: slot_id_def slot_fields_def)

text \<open>
  Claim C6. Each record carries the clock as it stands after the question's duration has
  been added, that duration being a draw from 15 to 30 seconds plus 3 seconds per grade
  above 4; and in the record sequence of any student, for any draws, the timestamps never
  decrease.
\<close>

theorem timestamps_nondecreasing:
  "timestamp (last (responses (question student_grade base_skill grade cmp q_type seq st)))
     = current_time (question student_grade base_skill grade cmp q_type seq st)
   \<and> current_time st + 15 + 3 * (grade - 4)
       \<le> current_time (question student_grade base_skill grade cmp q_type seq st)
   \<and> current_time (question student_grade base_skill grade cmp q_type seq st)
       \<le> current_time st + 30 + 3 * (grade - 4)
   \<and> (\<exists>rs r'. simulate_student_performance student_grade base_skill r = Inr ((rs, False), r')
         \<and> sorted (map timestamp rs))"
proof -
  have a: "timestamp (last (responses (question student_grade base_skill grade cmp q_type seq st)))
     = current_time (question student_grade base_skill grade cmp q_type seq st)"
    using question_responses [of student_grade base_skill grade cmp q_type seq st] by auto
  have b: "current_time st + 15 + 3 * (grade - 4)
       \<le> current_time (question student_grade base_skill grade cmp q_type seq st)
     \<and> current_time (question student_grade base_skill grade cmp q_type seq st)
       \<le> current_time st + 30 + 3 * (grade - 4)"
    using question_time [of st grade student_grade base_skill cmp q_type seq] by auto
  from simulate_run [of student_grade base_skill r] obtain st' slots where
    s: "simulate_student_performance student_grade base_skill r = Inr ((responses st', False), rand st')"
       "emits \<lparr>current_time = start_time, responses = [], rand = r\<rparr> st' slots"
    by blast
  have "sorted (map timestamp (responses st'))"
    using s(2) unfolding emits_def by auto
  then show ?thesis using a b s(1) by blast
qed

text \<open>
  Claim C7. The (grade, competency, type, sequence) tuples of the nested iteration are
  pairwise distinct and so are the identifiers made from them; the records of one student
  follow that iteration from its start, so no two of them share a question identifier.
\<close>

theorem question_ids_unique:
  "distinct all_slots
   \<and> distinct (map slot_id all_slots)
   \<and> (\<exists>rs r'. simulate_student_performance student_grade base_skill r = Inr ((rs, False), r')
         \<and> prefix (map question_id rs) (map slot_id all_slots)
         \<and> distinct (map question_id rs))"
proof -
  have d: "distinct (map slot_id all_slots)" by (rule all_ids_distinct)
  then have d0: "distinct all_slots" by (simp add: distinct_map)
  from simulate_run [of student_grade base_skill r] obtain st' slots where
    s: "simulate_student_performance student_grade base_skill r = Inr ((responses st', False), rand st')"
       "emits \<lparr>current_time = start_time, responses = [], rand = r\<rparr> st' slots"
       "prefix slots all_slots"
    by blast
  have f: "map response_fields (responses st') = map slot_fields slots"
    using s(2) unfolding emits_def by auto
  have "map question_id (responses st') = map fst (map response_fields (responses st'))"
    by (simp add: question_id_fields)
  also have "\<dots> = map slot_id slots"
    unfolding f by (simp add: slot_id_fields)
  finally have e: "map question_id (responses st') = map slot_id slots" .
  have p: "prefix (map question_id (responses st')) (map slot_id all_slots)"
    unfolding e using s(3) by (rule map_mono_prefix)
  then obtain zs where "map slot_id all_slots = map question_id (responses st') @ zs"
    by (auto elim: prefixE)
  then have "distinct (map question_id (responses st'))"
    using d by (metis distinct_append)
  then show ?thesis using d d0 p s(1) by blast
qed

section \<open>The records of one grade\<close>

lemma comp_loop_snoc:
  "comp_loop sg bs g (xs @ [c]) st =
     (if exhausted (comp_loop sg bs g xs st) then comp_loop sg bs g xs st
      else competency_questions sg bs g c (comp_loop sg bs g xs st))"
proof (induction xs arbitrary: st)
  case Nil
  show ?case by (simp add: exhausted_def Let_def)
next
  case (Cons x xs)
  show ?case
  proof (cases "exhausted st")
    case True
    then show ?thesis by (simp add: comp_loop_exhausted del: comp_loop.simps)
  next
    case False
    then show ?thesis
      using Cons.IH [of "competency_questions sg bs g x st"]
      by (simp add: comp_loop_not_exhausted del: comp_loop.simps)
  qed
qed

section \<open>Competencies are begun with budget left and then completed\<close>

lemma competency_appends:
  assumes "4 \<le> g"
  shows "\<exists>new. responses (competency_questions sg bs g c st) = responses st @ new
           \<and> length new = 6
           \<and> timestamp (last new) = current_time (competency_questions sg bs g c st)"
proof -
  from competency_emits [OF assms, of st sg bs c] obtain new where n:
    "responses (competency_questions sg bs g c st) = responses st @ new"
    "map response_fields new = map slot_fields (question_slots g [c])"
    "current_time (competency_questions sg bs g c st)
       = (if new = [] then current_time st else timestamp (last new))"
    unfolding emits_def by blast
  have "length new = length (question_slots g [c])" using n(2) by (metis length_map)
  then have l: "length new = 6" by (simp add: length_question_slots)
  then have "new \<noteq> []" by auto
  then show ?thesis using n(1,3) l by auto
qed

lemma competency_whole:
  assumes g: "4 \<le> g" and nx: "\<not> exhausted st" and inv: "whole_competencies st"
  shows "whole_competencies (competency_questions sg bs g c st)"
proof -
  define st' where "st' = competency_questions sg bs g c st"
  from competency_appends [OF g, of sg bs c st] obtain new where n:
    "responses st' = responses st @ new" "length new = 6"
    "timestamp (last new) = current_time st'"
    unfolding st'_def by blast
  have ne: "new \<noteq> []" using n(2) by auto
  have d: "6 dvd length (responses st)" using inv by (simp add: whole_competencies_def)
  have a: "6 dvd length (responses st')" using d n(1,2) by simp
  have b: "timestamp (last (responses st')) = current_time st'" using n(1,3) ne by simp
  have c: "timestamp (responses st' ! (6 * k - 1)) - start_time < time_limit_seconds"
    if k: "0 < k" "6 * k < length (responses st')" for k
  proof (cases "6 * k < length (responses st)")
    case True
    then have "responses st' ! (6 * k - 1) = responses st ! (6 * k - 1)"
      using n(1) k(1) by (simp add: nth_append)
    then show ?thesis using inv k(1) True by (simp add: whole_competencies_def)
  next
    case False
    obtain m where m: "length (responses st) = 6 * m" using d by (elim dvdE)
    have "6 * k < 6 * m + 6" using k(2) n(1,2) m by simp
    then have "k \<le> m" by simp
    moreover have "m \<le> k" using False m by simp
    ultimately have km: "k = m" by simp
    then have pos: "responses st \<noteq> []" using k(1) m by auto
    have "responses st' ! (6 * k - 1) = last (responses st)"
      using n(1) km m pos k(1) by (simp add: nth_append last_conv_nth)
    then have "timestamp (responses st' ! (6 * k - 1)) = current_time st"
      using inv pos by (simp add: whole_competencies_def)
    then show ?thesis using nx by (simp add: exhausted_def)
  qed
  show ?thesis
    unfolding whole_competencies_def st'_def [symmetric] using a b c by simp
qed

lemma comp_loop_whole:
  assumes "4 \<le> g"
  shows "whole_competencies st \<Longrightarrow> whole_competencies (comp_loop sg bs g comps st)"
proof (induction comps arbitrary: st)
  case Nil
  then show ?case by simp
next
  case (Cons c comps)
  show ?case
  proof (cases "exhausted st")
    case True
    then show ?thesis using Cons.prems by (simp add: comp_loop_exhausted del: comp_loop.simps)
  next
    case False
    have "whole_competencies (competency_questions sg bs g c st)"
      using assms False Cons.prems by (rule competency_whole)
    then show ?thesis
      using Cons.IH False by (simp add: comp_loop_not_exhausted del: comp_loop.simps)
  qed
qed

lemma grade_loop_whole:
  assumes "\<forall>g \<in> set gs. 4 \<le> g" "whole_competencies st" "grade_loop sg bs gs st = Inr st'"
  shows "whole_competencies st'"
  using assms
proof (induction gs arbitrary: st)
  case Nil
  then show ?case by simp
next
  case (Cons g gs)
  from Cons.prems(3) obtain comps where c: "GRADE_COMPETENCIES g = Some comps"
    by (auto split: option.splits)
  have g4: "4 \<le> g" using Cons.prems(1) by simp
  have "whole_competencies (comp_loop sg bs g comps st)"
    using comp_loop_whole [OF g4 Cons.prems(2)] .
  moreover have "grade_loop sg bs gs (comp_loop sg bs g comps st) = Inr st'"
    using Cons.prems(3) c by simp
  ultimately show ?case using Cons.IH Cons.prems(1) by simp
qed

section \<open>The loops once the budget is used up\<close>

lemma competency_length:
  "length (responses (competency_questions sg bs g c st)) = length (responses st) + 6"
proof -
  have q: "\<And>t s st. length (responses (question sg bs g c t s st)) = length (responses st) + 1"
    by (simp add: question_def Let_def split_def)
  show ?thesis unfolding competency_questions_unfold by (simp add: q)
qed

lemma grade_loop_KeyError:
  assumes "exhausted st" "\<forall>g \<in> set gs. GRADE_COMPETENCIES g \<noteq> None" "GRADE_COMPETENCIES g' = None"
  shows "grade_loop sg bs (gs @ [g']) st = Inl KeyError"
  using grade_loop_exhausted [OF assms(1,2), of sg bs] assms(3)
  by (simp add: grade_loop_append)

section \<open>How far the time budget reaches\<close>

lemma comp_loop_count:
  assumes "4 \<le> g"
  shows "\<exists>k \<le> length comps.
           length (responses (comp_loop sg bs g comps st)) = length (responses st) + 6 * k
         \<and> current_time st + int k * (6 * (15 + (g - 4) * 3)) \<le> current_time (comp_loop sg bs g comps st)
         \<and> current_time (comp_loop sg bs g comps st) \<le> current_time st + int k * (6 * (30 + (g - 4) * 3))
         \<and> (k < length comps \<longrightarrow> exhausted (comp_loop sg bs g comps st))
         \<and> (0 < k \<longrightarrow> current_time st + (int k - 1) * (6 * (15 + (g - 4) * 3)) - start_time
                          < time_limit_seconds)"
proof -
  from comp_loop_run [OF assms, of comps st sg bs] obtain k where k: "k \<le> length comps"
    "emits st (comp_loop sg bs g comps st) (question_slots g (take k comps))"
    "current_time st + int k * (6 * (15 + (g - 4) * 3)) \<le> current_time (comp_loop sg bs g comps st)"
    "current_time (comp_loop sg bs g comps st) \<le> current_time st + int k * (6 * (30 + (g - 4) * 3))"
    "k < length comps \<longrightarrow> exhausted (comp_loop sg bs g comps st)"
    "0 < k \<longrightarrow> current_time st + (int k - 1) * (6 * (15 + (g - 4) * 3)) - start_time
                          < time_limit_seconds"
    by blast
  have "length (responses (comp_loop sg bs g comps st)) = length (responses st) + 6 * k"
    using emits_length [OF k(2)] k(1) by (simp add: length_question_slots)
  then show ?thesis using k by blast
qed

lemma grade_loop_min:
  assumes "\<forall>g \<in> set gs. 4 \<le> g \<and> g \<le> 12"
  shows "\<exists>st'. grade_loop sg bs gs st = Inr st'
          \<and> length (responses st') \<le> length (responses st) + 24 * length gs
          \<and> (exhausted st'
              \<or> current_time st + sum_list (map (\<lambda>g. 4 * (6 * (15 + (g - 4) * 3))) gs)
                  \<le> current_time st')"
  using assms
proof (induction gs arbitrary: st)
  case Nil
  show ?case by simp
next
  case (Cons g gs)
  have g: "4 \<le> g" "g \<le> 12" using Cons.prems by simp_all
  have rest: "\<forall>g \<in> set gs. 4 \<le> g \<and> g \<le> 12" using Cons.prems by simp
  have tbl: "\<forall>g \<in> set gs. GRADE_COMPETENCIES g \<noteq> None"
    using rest GRADE_COMPETENCIES_dom by fastforce
  from GRADE_COMPETENCIES_dom [OF g] obtain comps where
    c: "GRADE_COMPETENCIES g = Some comps" "length comps = 4" by blast
  define st1 where "st1 = comp_loop sg bs g comps st"
  define lo where "lo = 6 * (15 + (g - 4) * 3)"
  have step: "grade_loop sg bs (g # gs) st = grade_loop sg bs gs st1"
    by (simp add: c st1_def)
  from comp_loop_count [OF g(1), of comps sg bs st] obtain k where k0: "k \<le> length comps"
    "length (responses st1) = length (responses st) + 6 * k"
    "current_time st + int k * lo \<le> current_time st1"
    "k < length comps \<longrightarrow> exhausted st1"
    unfolding st1_def lo_def by blast
  have k: "k \<le> 4" "length (responses st1) = length (responses st) + 6 * k"
    "current_time st + int k * lo \<le> current_time st1" "k < 4 \<longrightarrow> exhausted st1"
    using k0 c(2) by simp_all
  show ?case
  proof (cases "k < 4")
    case True
    then have ex: "exhausted st1" using k(4) by simp
    have r: "grade_loop sg bs gs st1 = Inr st1" using ex tbl by (rule grade_loop_exhausted)
    have "length (responses st1) \<le> length (responses st) + 24 * length (g # gs)"
      using k(1,2) by simp
    then show ?thesis unfolding step r using ex by blast
  next
    case False
    then have k4: "k = 4" using k(1) by simp
    from Cons.IH [OF rest, of st1] obtain st2 where s:
      "grade_loop sg bs gs st1 = Inr st2"
      "length (responses st2) \<le> length (responses st1) + 24 * length gs"
      "exhausted st2
         \<or> current_time st1 + sum_list (map (\<lambda>g. 4 * (6 * (15 + (g - 4) * 3))) gs) \<le> current_time st2"
      by blast
    have l: "length (responses st2) \<le> length (responses st) + 24 * length (g # gs)"
      using s(2) k(2) k4 by simp
    have t: "exhausted st2
         \<or> current_time st + sum_list (map (\<lambda>g. 4 * (6 * (15 + (g - 4) * 3))) (g # gs))
             \<le> current_time st2"
      using s(3) k(3) k4 by (auto simp: lo_def)
    show ?thesis unfolding step s(1) using l t by blast
  qed
qed

lemma length_grade_slots: "4 \<le> g \<Longrightarrow> g \<le> 12 \<Longrightarrow> length (grade_slots g) = 24"
  using GRADE_COMPETENCIES_dom [of g] by (auto simp: grade_slots_def length_question_slots)

lemma length_all_slots: "length all_slots = 216"
proof -
  have "\<And>gs. \<forall>g \<in> set gs. 4 \<le> g \<and> g \<le> 12 \<Longrightarrow>
            length (concat (map grade_slots gs)) = 24 * length gs"
  proof -
    fix gs :: "int list" show "\<forall>g \<in> set gs. 4 \<le> g \<and> g \<le> 12 \<Longrightarrow>
            length (concat (map grade_slots gs)) = 24 * length gs"
      by (induction gs) (simp_all add: length_grade_slots)
  qed
  from this [of "[4..12]"] show ?thesis by (simp add: all_slots_def)
qed

lemma upto_4_11: "[4..11] = [4, 5, 6, 7, 8, 9, 10, 11 :: int]"
  by (simp add: upto.simps)

lemma min_elapsed_35_value: "min_elapsed_35 = 5598"
  by (simp add: min_elapsed_35_def upto_4_11)

lemma min_sum_4_11:
  "sum_list (map (\<lambda>g. 4 * (6 * (15 + (g - 4) * 3))) [4, 5, 6, 7, 8, 9, 10, 11 :: int]) = 4896"
  by simp

lemma simulate_count:
  "\<exists>st'. grade_loop sg bs [4..12] \<lparr>current_time = start_time, responses = [], rand = r\<rparr> = Inr st'
      \<and> length (responses st') \<le> 210"
proof -
  define st0 where "st0 = \<lparr>current_time = start_time, responses = [], rand = r\<rparr>"
  have st0: "current_time st0 = start_time" "responses st0 = []" by (simp_all add: st0_def)
  have v: "\<forall>g \<in> set [4, 5, 6, 7, 8, 9, 10, 11 :: int]. 4 \<le> g \<and> g \<le> 12" by simp
  from grade_loop_min [OF v, of sg bs st0] obtain s11 where a:
    "grade_loop sg bs [4, 5, 6, 7, 8, 9, 10, 11] st0 = Inr s11"
    "length (responses s11) \<le> length (responses st0) + 24 * length [4, 5, 6, 7, 8, 9, 10, 11 :: int]"
    "exhausted s11 \<or> current_time st0
        + sum_list (map (\<lambda>g. 4 * (6 * (15 + (g - 4) * 3))) [4, 5, 6, 7, 8, 9, 10, 11 :: int])
        \<le> current_time s11"
    by blast
  have l11: "length (responses s11) \<le> 192" using a(2) by (simp add: st0)
  have t11: "exhausted s11 \<or> start_time + 4896 \<le> current_time s11"
    using a(3) unfolding min_sum_4_11 st0 .
  have "(4::int) \<le> 12" "(12::int) \<le> 12" by simp_all
  from GRADE_COMPETENCIES_dom [OF this] obtain comps where
    c: "GRADE_COMPETENCIES 12 = Some comps" "length comps = 4" by blast
  define s12 where "s12 = comp_loop sg bs 12 comps s11"
  have g12: "grade_loop sg bs [12] s11 = Inr s12" by (simp add: c(1) s12_def)
  have "[4..12] = [4, 5, 6, 7, 8, 9, 10, 11] @ [12 :: int]" by (simp add: upto_4_12)
  then have run: "grade_loop sg bs [4..12] st0 = Inr s12"
    by (simp only: grade_loop_append a(1) g12 sum.case)
  have "(4::int) \<le> 12" by simp
  from comp_loop_count [OF this, of comps sg bs s11] obtain k where k: "k \<le> length comps"
    "length (responses (comp_loop sg bs 12 comps s11)) = length (responses s11) + 6 * k"
    "0 < k \<longrightarrow> current_time s11 + (int k - 1) * (6 * (15 + (12 - 4) * 3)) - start_time
             < time_limit_seconds"
    by blast
  have "k \<noteq> 4"
  proof
    assume "k = 4"
    then have "current_time s11 + 702 - start_time < time_limit_seconds" using k(3) by simp
    then have "current_time s11 - start_time < 4698" by (simp add: time_limit_seconds_def)
    moreover have "4896 \<le> current_time s11 - start_time"
      using t11 by (auto simp: exhausted_def time_limit_seconds_def)
    ultimately show False by simp
  qed
  then have "k \<le> 3" using k(1) c(2) by simp
  then have "length (responses s12) \<le> 210" using k(2) l11 by (simp add: s12_def)
  then show ?thesis using run unfolding st0_def by blast
qed

text \<open>
  Claim C10. Whatever the student's grade, skill and draws, the run ends with the time
  budget used up before the traversal is complete: 35 competencies take at least 5598
  seconds, more than the 5400 of the budget, so the check before the last competency of
  grade 12 never passes. A student's record count is at most 210, fewer than the 216
  questions of the full traversal, and the last record is stamped at or after the limit.
\<close>

theorem budget_exhausted_before_full_traversal:
  "(\<exists>rs r'. simulate_student_performance student_grade base_skill r = Inr ((rs, False), r')
       \<and> length rs \<le> 210
       \<and> length rs < length all_slots
       \<and> time_limit_seconds \<le> timestamp (last rs) - start_time)
   \<and> length all_slots = 216
   \<and> min_elapsed_35 = 5598
   \<and> time_limit_seconds < min_elapsed_35"
proof -
  define st0 where "st0 = \<lparr>current_time = start_time, responses = [], rand = r\<rparr>"
  from simulate_count [of student_grade base_skill r] obtain s where s:
    "grade_loop student_grade base_skill [4..12] st0 = Inr s" "length (responses s) \<le> 210"
    unfolding st0_def by blast
  from grade_loop_run [OF range_valid, of student_grade base_skill st0] s(1)
  obtain slots where e: "emits st0 s slots" "slots \<noteq> all_slots \<longrightarrow> exhausted s"
    unfolding all_slots_def by auto
  have ls: "length slots = length (responses s)" using emits_length [OF e(1)] by (simp add: st0_def)
  then have "slots \<noteq> all_slots" using s(2) length_all_slots by auto
  then have x: "exhausted s" using e(2) by simp
  from e(1) obtain new where n: "responses s = responses st0 @ new"
    "current_time s = (if new = [] then current_time st0 else timestamp (last new))"
    unfolding emits_def by blast
  have rs: "responses s = new" using n(1) by (simp add: st0_def)
  have "new \<noteq> []"
  proof
    assume "new = []"
    then have "current_time s = start_time" using n(2) by (simp add: st0_def)
    then show False using x by (simp add: exhausted_def time_limit_seconds_def)
  qed
  then have "timestamp (last (responses s)) = current_time s" using n(2) rs by simp
  then have t: "time_limit_seconds \<le> timestamp (last (responses s)) - start_time"
    using x by (simp add: exhausted_def)
  have run: "simulate_student_performance student_grade base_skill r = Inr ((responses s, False), rand s)"
    using s(1) unfolding simulate_student_performance_def st0_def by simp
  have lt: "length (responses s) < length all_slots" using s(2) length_all_slots by simp
  have m: "time_limit_seconds < min_elapsed_35"
    by (simp add: min_elapsed_35_value time_limit_seconds_def)
  show ?thesis using run s(2) lt t length_all_slots min_elapsed_35_value m by blast
qed

section \<open>Every student has records\<close>

lemma simulate_first_grade:
  "\<exists>rs r'. simulate_student_performance sg bs r = Inr ((rs, False), r')
      \<and> 24 \<le> length rs
      \<and> map response_fields (take 24 rs) = map slot_fields (grade_slots 4)"
proof -
  define st0 where "st0 = \<lparr>current_time = start_time, responses = [], rand = r\<rparr>"
  have st0: "current_time st0 = start_time" "responses st0 = []" by (simp_all add: st0_def)
  have g4: "(4::int) \<le> 4" "(4::int) \<le> 12" by simp_all
  from GRADE_COMPETENCIES_dom [OF g4] obtain comps where
    c: "GRADE_COMPETENCIES 4 = Some comps" "length comps = 4" by blast
  define st1 where "st1 = comp_loop sg bs 4 comps st0"
  from comp_loop_run [OF g4(1), of comps st0 sg bs] obtain k where k: "k \<le> length comps"
    "emits st0 st1 (question_slots 4 (take k comps))"
    "current_time st1 \<le> current_time st0 + int k * (6 * (30 + (4 - 4) * 3))"
    "k < length comps \<longrightarrow> exhausted st1"
    unfolding st1_def by blast
  have "current_time st1 - start_time \<le> 720" using k(1,3) c(2) by (simp add: st0)
  then have "\<not> exhausted st1" by (simp add: exhausted_def time_limit_seconds_def)
  then have "take k comps = comps" using k(1,4) by simp
  then have e1: "emits st0 st1 (grade_slots 4)" using k(2) by (simp add: grade_slots_def c(1))
  have v: "\<forall>g \<in> set [5, 6, 7, 8, 9, 10, 11, 12 :: int]. 4 \<le> g \<and> GRADE_COMPETENCIES g \<noteq> None"
    using range_valid by (simp add: upto_4_12)
  from grade_loop_run [OF v, of sg bs st1] obtain st2 slots where s:
    "grade_loop sg bs [5, 6, 7, 8, 9, 10, 11, 12] st1 = Inr st2" "emits st1 st2 slots"
    by blast
  have run: "grade_loop sg bs [4..12] st0 = Inr st2"
    unfolding upto_4_12 using s(1) by (simp add: c(1) st1_def)
  from emits_trans [OF e1 s(2)] obtain new where n: "responses st2 = responses st0 @ new"
    "map response_fields new = map slot_fields (grade_slots 4 @ slots)"
    unfolding emits_def by blast
  have rs: "responses st2 = new" using n(1) by (simp add: st0)
  have l4: "length (grade_slots 4) = 24" using length_grade_slots [OF g4] .
  have "length new = length (grade_slots 4 @ slots)" using n(2) by (metis length_map)
  then have len: "24 \<le> length new" using l4 by simp
  have "map response_fields (take 24 new) = take 24 (map response_fields new)"
    by (simp only: take_map)
  also have "\<dots> = take 24 (map slot_fields (grade_slots 4) @ map slot_fields slots)"
    by (simp only: n(2) map_append)
  also have "\<dots> = map slot_fields (grade_slots 4)" using l4 by simp
  finally have f: "map response_fields (take 24 new) = map slot_fields (grade_slots 4)" .
  have "simulate_student_performance sg bs r = Inr ((new, False), rand st2)"
    using run rs unfolding simulate_student_performance_def st0_def by simp
  then show ?thesis using len f by blast
qed

lemma students_loop_Inr: "\<exists>rows' r'. students_loop ids rows r = Inr (rows', r')"
proof (induction ids arbitrary: rows r)
  case Nil
  show ?case by simp
next
  case (Cons i ids)
  show ?case
  proof -
    define r4 where "r4 = snd (uniform 0.5 0.9 (snd (randint 4 12 (snd (choice LAST_NAMES (snd (choice FIRST_NAMES r)))))))"
    define sg where "sg = fst (randint 4 12 (snd (choice LAST_NAMES (snd (choice FIRST_NAMES r)))))"
    define bs where "bs = fst (uniform 0.5 0.9 (snd (randint 4 12 (snd (choice LAST_NAMES (snd (choice FIRST_NAMES r)))))))"
    from simulate_first_grade [of sg bs r4] obtain rs r5 where
      s: "simulate_student_performance sg bs r4 = Inr ((rs, False), r5)" by blast
    show ?thesis
      using Cons.IH s
      by (simp add: Let_def split_def r4_def sg_def bs_def)
  qed
qed

lemma grade_of_tag_error: "grade_of_tag tag = Inl e \<Longrightarrow> e \<noteq> ZeroDivisionError"
  by (auto simp: grade_of_tag_def py_int_def Let_def split: if_splits)

lemma parse_grades_error: "parse_grades rs = Inl e \<Longrightarrow> e \<noteq> ZeroDivisionError"
  by (induction rs arbitrary: e) (auto split: sum.splits dest: grade_of_tag_error)

lemma parse_grades_length: "parse_grades rs = Inr gs \<Longrightarrow> length gs = length rs"
  by (induction rs arbitrary: gs) (auto split: sum.splits)

lemma summary_line_no_zero_division: "summary_line all_rows sid \<noteq> Inl ZeroDivisionError"
proof
  assume z: "summary_line all_rows sid = Inl ZeroDivisionError"
  define srows where "srows = filter (\<lambda>r. student_id r = sid) all_rows"
  show False
  proof (cases "parse_grades srows")
    case (Inl e)
    then have "summary_line all_rows sid = Inl e"
      by (simp add: summary_line_def Let_def srows_def)
    then show False using z parse_grades_error [OF Inl] by simp
  next
    case (Inr gs)
    show False
    proof (cases gs)
      case Nil
      then have "summary_line all_rows sid = Inl ValueError"
        using Inr by (simp add: summary_line_def Let_def srows_def py_max_def)
      then show False using z by simp
    next
      case (Cons g gs')
      then have "srows \<noteq> []" using parse_grades_length [OF Inr] by auto
      then have "\<exists>line. summary_line all_rows sid = Inr line"
        using Inr Cons by (simp add: summary_line_def Let_def srows_def py_max_def)
      then show False using z by auto
    qed
  qed
qed

lemma summary_loop_no_zero_division: "summary_loop all_rows sids out \<noteq> Inl ZeroDivisionError"
proof (induction sids arbitrary: out)
  case Nil
  show ?case by simp
next
  case (Cons sid sids)
  show ?case
    using summary_line_no_zero_division [of all_rows sid] Cons.IH
    by (cases "summary_line all_rows sid") (auto split: sum.splits)
qed

text \<open>
  Claim C9. The summary never divides by zero. For every student grade, base skill and
  sequence of draws the simulator returns at least one record: grade 4 is always gone
  through in full (its 24 questions take at most 720 seconds and the clock starts at zero),
  so its 24 records head every student's sequence. And whatever the rows, the summary line
  of a student id never ends in ZeroDivisionError, nor does a whole run.
\<close>

theorem summary_never_divides_by_zero:
  "(\<exists>rs r'. simulate_student_performance student_grade base_skill r = Inr ((rs, False), r')
       \<and> rs \<noteq> []
       \<and> 24 \<le> length rs
       \<and> map response_fields (take 24 rs) = map slot_fields (grade_slots 4))
   \<and> summary_line all_rows sid \<noteq> Inl ZeroDivisionError
   \<and> generate_sample_data set_iter can_open num_students output_file r' \<noteq> Inl ZeroDivisionError"
proof -
  from simulate_first_grade [of student_grade base_skill r] obtain rs r1 where
    s: "simulate_student_performance student_grade base_skill r = Inr ((rs, False), r1)"
       "24 \<le> length rs" "map response_fields (take 24 rs) = map slot_fields (grade_slots 4)"
    by blast
  have ne: "rs \<noteq> []" using s(2) by auto
  from students_loop_Inr [of "range num_students" "[]" r'] obtain rows r2 where
    l: "students_loop (range num_students) [] r' = Inr (rows, r2)" by blast
  have g: "generate_sample_data set_iter can_open num_students output_file r' \<noteq> Inl ZeroDivisionError"
    using summary_loop_no_zero_division
    by (auto simp: generate_sample_data_def l Let_def split: sum.splits)
  show ?thesis using s ne summary_line_no_zero_division g by blast
qed

section \<open>The run in which every question takes its shortest time\<close>

lemma rng_next_zero: "rng_next rng_zero = rng_zero"
  by (simp add: rng_next_def rng_zero_def)

lemma question_zero:
  "rand st = rng_zero \<Longrightarrow>
   question sg bs g c t s st =
     \<lparr>current_time = current_time st + (15 + (g - 4) * 3),
      responses = responses st @
        [\<lparr>question_id = generate_question_id g c t s, grade_tag = ''Grade-'' @ str_int g,
          competency_tag = c, type_tag = ''Type-'' @ str_int t,
          is_correct = (if 0 < prob_correct g sg bs t then 1 else 0),
          timestamp = current_time st + (15 + (g - 4) * 3)\<rparr>],
      rand = rng_zero\<rparr>"
  by (simp add: question_def Let_def random_random_def randint_def rng_next_zero)
     (simp add: rng_zero_def)

lemma min_run_records:
  "map (\<lambda>r. (grade_tag r, elapsed_at r)) min_run =
     map (Pair (''Grade-'' @ str_int 4))
       [15, 30, 45, 60, 75, 90, 105, 120, 135, 150, 165, 180, 195, 210, 225, 240, 255,
        270, 285, 300, 315, 330, 345, 360]
     @ map (Pair (''Grade-'' @ str_int 5))
       [378, 396, 414, 432, 450, 468, 486, 504, 522, 540, 558, 576, 594, 612, 630, 648,
        666, 684, 702, 720, 738, 756, 774, 792]
     @ map (Pair (''Grade-'' @ str_int 6))
       [813, 834, 855, 876, 897, 918, 939, 960, 981, 1002, 1023, 1044, 1065, 1086,
        1107, 1128, 1149, 1170, 1191, 1212, 1233, 1254, 1275, 1296]
     @ map (Pair (''Grade-'' @ str_int 7))
       [1320, 1344, 1368, 1392, 1416, 1440, 1464, 1488, 1512, 1536, 1560, 1584, 1608,
        1632, 1656, 1680, 1704, 1728, 1752, 1776, 1800, 1824, 1848, 1872]
     @ map (Pair (''Grade-'' @ str_int 8))
       [1899, 1926, 1953, 1980, 2007, 2034, 2061, 2088, 2115, 2142, 2169, 2196, 2223,
        2250, 2277, 2304, 2331, 2358, 2385, 2412, 2439, 2466, 2493, 2520]
     @ map (Pair (''Grade-'' @ str_int 9))
       [2550, 2580, 2610, 2640, 2670, 2700, 2730, 2760, 2790, 2820, 2850, 2880, 2910,
        2940, 2970, 3000, 3030, 3060, 3090, 3120, 3150, 3180, 3210, 3240]
     @ map (Pair (''Grade-'' @ str_int 10))
       [3273, 3306, 3339, 3372, 3405, 3438, 3471, 3504, 3537, 3570, 3603, 3636, 3669,
        3702, 3735, 3768, 3801, 3834, 3867, 3900, 3933, 3966, 3999, 4032]
     @ map (Pair (''Grade-'' @ str_int 11))
       [4068, 4104, 4140, 4176, 4212, 4248, 4284, 4320, 4356, 4392, 4428, 4464, 4500,
        4536, 4572, 4608, 4644, 4680, 4716, 4752, 4788, 4824, 4860, 4896]
     @ map (Pair (''Grade-'' @ str_int 12))
       [4935, 4974, 5013, 5052, 5091, 5130, 5169, 5208, 5247, 5286, 5325, 5364, 5403,
        5442, 5481, 5520, 5559, 5598]"
  by (simp add: min_run_def simulate_student_performance_def upto_4_12 GRADE_COMPETENCIES_def
        Let_def competency_questions_def question_zero start_time_def time_limit_seconds_def
        elapsed_at_def)

lemma min_run_length: "length min_run = 210"
proof -
  have "length (map (\<lambda>r. (grade_tag r, elapsed_at r)) min_run) = 210"
    unfolding min_run_records by simp
  then show ?thesis by simp
qed

lemma min_run_elapsed_tail:
  "map elapsed_at (drop 192 min_run) =
       [4935, 4974, 5013, 5052, 5091, 5130, 5169, 5208, 5247, 5286, 5325, 5364,
        5403, 5442, 5481, 5520, 5559, 5598]"
proof -
  have "map elapsed_at (drop 192 min_run)
          = map snd (drop 192 (map (\<lambda>r. (grade_tag r, elapsed_at r)) min_run))"
    by (simp add: comp_def drop_map)
  then show ?thesis unfolding min_run_records by simp
qed


section \<open>Where the time budget is checked\<close>

lemma simulate_whole:
  "\<exists>rs r'. simulate_student_performance sg bs r = Inr ((rs, False), r')
      \<and> 6 dvd length rs
      \<and> (\<forall>k. 0 < k \<and> 6 * k < length rs \<longrightarrow>
             timestamp (rs ! (6 * k - 1)) - start_time < time_limit_seconds)
      \<and> 24 \<le> length rs
      \<and> time_limit_seconds \<le> timestamp (last rs) - start_time"
proof -
  define st0 where "st0 = \<lparr>current_time = start_time, responses = [], rand = r\<rparr>"
  have w0: "whole_competencies st0" by (simp add: whole_competencies_def st0_def)
  from simulate_count [of sg bs r] obtain s where s:
    "grade_loop sg bs [4..12] st0 = Inr s" "length (responses s) \<le> 210"
    unfolding st0_def by blast
  have "\<forall>g \<in> set [4..12]. (4::int) \<le> g" by simp
  from grade_loop_whole [OF this w0 s(1)] have w: "whole_competencies s" .
  from grade_loop_run [OF range_valid, of sg bs st0] s(1)
  obtain slots where e: "emits st0 s slots" "slots \<noteq> all_slots \<longrightarrow> exhausted s"
    unfolding all_slots_def by auto
  have "length slots = length (responses s)" using emits_length [OF e(1)] by (simp add: st0_def)
  then have "slots \<noteq> all_slots" using s(2) length_all_slots by auto
  then have x: "exhausted s" using e(2) by simp
  have run: "simulate_student_performance sg bs r = Inr ((responses s, False), rand s)"
    using s(1) unfolding simulate_student_performance_def st0_def by simp
  from simulate_first_grade [of sg bs r] run have l: "24 \<le> length (responses s)" by auto
  then have "responses s \<noteq> []" by auto
  then have "timestamp (last (responses s)) = current_time s"
    using w by (simp add: whole_competencies_def)
  then have t: "time_limit_seconds \<le> timestamp (last (responses s)) - start_time"
    using x by (simp add: exhausted_def)
  have a: "6 dvd length (responses s)" using w by (simp add: whole_competencies_def)
  have b: "\<forall>k. 0 < k \<and> 6 * k < length (responses s) \<longrightarrow>
             timestamp (responses s ! (6 * k - 1)) - start_time < time_limit_seconds"
    using w by (simp add: whole_competencies_def)
  show ?thesis using run a b l t by blast
qed

text \<open>
  Claim C3 as amended. The elapsed time is compared with the 90-minute budget only where a
  competency begins: the head of the competency loop is the one place that leaves early, and
  a competency once begun always gets its six records, also when the clock passes the limit
  inside it. When the budget is found used up at such a boundary, the competency loop is
  left at once whatever the grade; the grade loop nevertheless goes on through every
  remaining grade (each is still looked up in the table, so a grade missing from the table
  would still raise KeyError) and ends in the same state: no record is added any more.
  So in every run the records are whole competencies of six, every competency after the
  first was begun while the clock (the stamp of the record before it) was under the limit,
  and the run ends with the clock at or past the limit.
\<close>

theorem budget_checked_at_competency_boundaries:
  assumes "time_limit_seconds \<le> current_time st - start_time"
    and "\<forall>g \<in> set grades. GRADE_COMPETENCIES g \<noteq> None"
  shows "comp_loop student_grade base_skill grade competencies st = st
       \<and> grade_loop student_grade base_skill grades st = Inr st
       \<and> (GRADE_COMPETENCIES g' = None \<longrightarrow>
            grade_loop student_grade base_skill (grades @ [g']) st = Inl KeyError)
       \<and> length (responses (competency_questions student_grade base_skill grade c st0))
            = length (responses st0) + 6
       \<and> comp_loop student_grade base_skill grade (c # cs) st0
            = (if time_limit_seconds \<le> current_time st0 - start_time then st0
               else comp_loop student_grade base_skill grade cs
                      (competency_questions student_grade base_skill grade c st0))
       \<and> (\<exists>rs r'. simulate_student_performance student_grade base_skill r = Inr ((rs, False), r')
             \<and> 6 dvd length rs
             \<and> (\<forall>k. 0 < k \<and> 6 * k < length rs \<longrightarrow>
                    timestamp (rs ! (6 * k - 1)) - start_time < time_limit_seconds)
             \<and> time_limit_seconds \<le> timestamp (last rs) - start_time)"
proof -
  have x: "exhausted st" using assms(1) by (simp add: exhausted_def)
  have a: "comp_loop student_grade base_skill grade competencies st = st"
    using x by (rule comp_loop_exhausted)
  have b: "grade_loop student_grade base_skill grades st = Inr st"
    using x assms(2) by (rule grade_loop_exhausted)
  have c: "GRADE_COMPETENCIES g' = None \<longrightarrow>
            grade_loop student_grade base_skill (grades @ [g']) st = Inl KeyError"
    using grade_loop_KeyError [OF x assms(2)] by blast
  have d: "length (responses (competency_questions student_grade base_skill grade c st0))
            = length (responses st0) + 6"
    by (rule competency_length)
  have e: "comp_loop student_grade base_skill grade (c # cs) st0
            = (if time_limit_seconds \<le> current_time st0 - start_time then st0
               else comp_loop student_grade base_skill grade cs
                      (competency_questions student_grade base_skill grade c st0))"
    by (simp add: Let_def)
  have f: "\<exists>rs r'. simulate_student_performance student_grade base_skill r = Inr ((rs, False), r')
             \<and> 6 dvd length rs
             \<and> (\<forall>k. 0 < k \<and> 6 * k < length rs \<longrightarrow>
                    timestamp (rs ! (6 * k - 1)) - start_time < time_limit_seconds)
             \<and> time_limit_seconds \<le> timestamp (last rs) - start_time"
    using simulate_whole [of student_grade base_skill r] by blast
  show ?thesis using a b c d e f by blast
qed

theorem budget_checked_at_competency_boundaries_witness:
  "time_limit_seconds \<le> current_time \<lparr>current_time = start_time + 5400, responses = [], rand = rng_zero\<rparr> - start_time
   \<and> GRADE_COMPETENCIES 10 \<noteq> None \<and> GRADE_COMPETENCIES 11 \<noteq> None
   \<and> GRADE_COMPETENCIES 12 \<noteq> None
   \<and> GRADE_COMPETENCIES 13 = None
   \<and> comp_loop 9 (7 / 10) 9 [''GEOM-Coord'', ''GEOM-Advanced'']
        \<lparr>current_time = start_time + 5400, responses = [], rand = rng_zero\<rparr>
       = \<lparr>current_time = start_time + 5400, responses = [], rand = rng_zero\<rparr>
   \<and> grade_loop 9 (7 / 10) [10, 11, 12]
        \<lparr>current_time = start_time + 5400, responses = [], rand = rng_zero\<rparr>
       = Inr \<lparr>current_time = start_time + 5400, responses = [], rand = rng_zero\<rparr>
   \<and> grade_loop 9 (7 / 10) ([10, 11, 12] @ [13])
        \<lparr>current_time = start_time + 5400, responses = [], rand = rng_zero\<rparr>
       = Inl KeyError
   \<and> (\<exists>rs r'. simulate_student_performance 9 (7 / 10) rng_zero = Inr ((rs, False), r')
         \<and> 6 * 1 < length rs
         \<and> timestamp (rs ! (6 * 1 - 1)) - start_time < time_limit_seconds)"
proof -
  have h1: "time_limit_seconds \<le> current_time \<lparr>current_time = start_time + 5400, responses = [], rand = rng_zero\<rparr> - start_time"
    by (simp add: time_limit_seconds_def)
  have h2: "\<forall>g \<in> set [10, 11, 12]. GRADE_COMPETENCIES g \<noteq> None"
    by (simp add: GRADE_COMPETENCIES_def)
  have h3: "GRADE_COMPETENCIES 13 = None"
    by (simp add: GRADE_COMPETENCIES_def)
  note t = budget_checked_at_competency_boundaries [OF h1 h2, of 9 "7 / 10" 9
        "[''GEOM-Coord'', ''GEOM-Advanced'']" 13 _ _ _ rng_zero]
  from t obtain rs r' where r:
    "simulate_student_performance 9 (7 / 10) rng_zero = Inr ((rs, False), r')"
    "\<forall>k. 0 < k \<and> 6 * k < length rs \<longrightarrow>
        timestamp (rs ! (6 * k - 1)) - start_time < time_limit_seconds"
    by blast
  from simulate_first_grade [of 9 "7 / 10" rng_zero] r(1) have l: "6 * 1 < length rs" by auto
  then have "timestamp (rs ! (6 * 1 - 1)) - start_time < time_limit_seconds"
    using r(2) by blast
  then have w: "\<exists>rs r'. simulate_student_performance 9 (7 / 10) rng_zero = Inr ((rs, False), r')
         \<and> 6 * 1 < length rs
         \<and> timestamp (rs ! (6 * 1 - 1)) - start_time < time_limit_seconds"
    using r(1) l by blast
  show ?thesis using t h1 h2 h3 w by simp
qed

text \<open>
  Claim C3, as stated, fails: records are still emitted after the budget is exceeded. In
  the run of a grade-4 student whose questions all take their shortest time, the third
  competency of grade 12 is begun at 5364 seconds; its first record (the 205th) is stamped
  5403 seconds, past the 5400 of the budget, and five more records follow it.
\<close>

theorem records_emitted_after_budget_exceeded:
  "length min_run = 210
   \<and> time_limit_seconds \<le> elapsed_at (min_run ! 204)
   \<and> map elapsed_at (drop 204 min_run) = [5403, 5442, 5481, 5520, 5559, 5598]"
proof -
  have "drop 12 (map elapsed_at (drop 192 min_run)) = [5403, 5442, 5481, 5520, 5559, 5598]"
    unfolding min_run_elapsed_tail by simp
  moreover have "drop 12 (map elapsed_at (drop 192 min_run)) = map elapsed_at (drop 204 min_run)"
    by (simp add: drop_map)
  ultimately have t: "map elapsed_at (drop 204 min_run) = [5403, 5442, 5481, 5520, 5559, 5598]"
    by simp
  have "map elapsed_at (drop 204 min_run) ! 0 = elapsed_at (drop 204 min_run ! 0)"
    using min_run_length by (intro nth_map) simp
  also have "drop 204 min_run ! 0 = min_run ! 204"
    using min_run_length by simp
  finally have "elapsed_at (min_run ! 204) = 5403" unfolding t by simp
  then show ?thesis using t min_run_length by (simp add: time_limit_seconds_def)
qed

section \<open>The records of each grade in a run\<close>

lemma budget_lasts_mono: "budget_lasts T gs \<Longrightarrow> T' \<le> T \<Longrightarrow> budget_lasts T' gs"
  by (induction gs arbitrary: T T') (auto simp: add_mono)















section \<open>A run with no students\<close>

lemma range_0: "range 0 = []"
  by (simp add: range_def)

lemma generate_sample_data_no_rows:
  "students_loop (range num_students) [] r = Inr ([], r')
   \<Longrightarrow> generate_sample_data set_iter can_open num_students output_file r
         = Inr \<lparr>csv_file = None, stdout = []\<rparr>"
  by (simp add: generate_sample_data_def)

text \<open>
  Claim C1 as amended. When \<open>generate_sample_data\<close> is called with student count 0 the
  student loop runs no iteration and \<open>all_rows\<close> stays empty; the writing of the file and all
  the prints stand under \<open>if all_rows:\<close>, so no file is opened or written (no header
  either) and nothing is printed, whatever the output path, whether or not it can be
  opened, and whatever the random source.
\<close>

theorem no_students_no_file_no_summary:
  "students_loop (range 0) [] r = Inr ([], r)
   \<and> generate_sample_data set_iter can_open 0 output_file r
       = Inr \<lparr>csv_file = None, stdout = []\<rparr>"
  using generate_sample_data_no_rows [of 0 r r set_iter can_open output_file]
  by (simp add: range_0)

text \<open>
  Counterexample to claim C1 as first stated (a file holding the 9-column header and the
  line ``Generated 0 responses for 0 students''): the call
  \<open>generate_sample_data(0, 'data/sample_quiz_results.csv')\<close>, on a path that can be opened,
  writes no file and prints nothing.
\<close>

theorem zero_students_header_not_written:
  "generate_sample_data remdups always_open 0 ''data/sample_quiz_results.csv'' rng_zero
     = Inr \<lparr>csv_file = None, stdout = []\<rparr>
   \<and> generate_sample_data remdups always_open 0 ''data/sample_quiz_results.csv'' rng_zero
     \<noteq> Inr \<lparr>csv_file = Some (fieldnames, []),
             stdout = [''Generated 0 responses for 0 students'',
                       ''Saved to: data/sample_quiz_results.csv'']\<rparr>"
  by (simp add: generate_sample_data_def range_0)

end
